theory Spec2Isabelle
  imports Main "HOL-Library.Multiset" "HOL-Library.Product_Lexorder" "HOL-Library.Word"
begin

section \<open>SQL values: three-valued logic and jsonb tags\<close>

text \<open>
  \<^verbatim>\<open>views.sql\<close> is evaluated by PostgreSQL. A boolean expression is TRUE, FALSE or NULL;
  a \<^verbatim>\<open>WHERE\<close> clause keeps a row only when its condition is TRUE. NULL is \<open>None\<close>.
\<close>

type_synonym sql_bool = "bool option"

fun sql_and :: "sql_bool \<Rightarrow> sql_bool \<Rightarrow> sql_bool" where
  "sql_and (Some False) _ = Some False"
| "sql_and _ (Some False) = Some False"
| "sql_and (Some True) (Some True) = Some True"
| "sql_and _ _ = None"

fun sql_or :: "sql_bool \<Rightarrow> sql_bool \<Rightarrow> sql_bool" where
  "sql_or (Some True) _ = Some True"
| "sql_or _ (Some True) = Some True"
| "sql_or (Some False) (Some False) = Some False"
| "sql_or _ _ = None"

text \<open>\<^verbatim>\<open>x = c\<close> and \<^verbatim>\<open>x IN (c1, ..., cn)\<close> for constants that are not NULL.\<close>

definition sql_eq :: "'a option \<Rightarrow> 'a \<Rightarrow> sql_bool" where
  "sql_eq x c = (case x of None \<Rightarrow> None | Some v \<Rightarrow> Some (v = c))"

definition sql_in :: "'a option \<Rightarrow> 'a list \<Rightarrow> sql_bool" where
  "sql_in x cs = (case x of None \<Rightarrow> None | Some v \<Rightarrow> Some (v \<in> set cs))"

text \<open>\<^verbatim>\<open>x IS DISTINCT FROM c\<close> is never NULL: NULL is distinct from every constant.\<close>

definition is_distinct_from :: "'a option \<Rightarrow> 'a \<Rightarrow> sql_bool" where
  "is_distinct_from x c = Some (x \<noteq> Some c)"

definition is_true :: "sql_bool \<Rightarrow> bool" where
  "is_true b = (b = Some True)"

text \<open>
  A \<^verbatim>\<open>tags\<close> column holds a jsonb object of strings, or NULL for an untagged row.
  \<^verbatim>\<open>tags->>'k'\<close> is the value under \<open>k\<close> (NULL when the key or the object is missing);
  \<^verbatim>\<open>tags ? 'k'\<close> tests for the key (NULL when the object is NULL).
\<close>

type_synonym jsonb = "(string \<times> string) list"

definition jget :: "jsonb option \<Rightarrow> string \<Rightarrow> string option" where
  "jget tags k = (case tags of None \<Rightarrow> None | Some obj \<Rightarrow> map_of obj k)"

definition jhas :: "jsonb option \<Rightarrow> string \<Rightarrow> sql_bool" where
  "jhas tags k = (case tags of None \<Rightarrow> None | Some obj \<Rightarrow> Some (k \<in> set (map fst obj)))"

text \<open>\<^verbatim>\<open>a && b\<close> on arrays: the two arrays have an element in common.\<close>

definition overlaps :: "int list \<Rightarrow> int list \<Rightarrow> bool" where
  "overlaps xs ys = (\<exists>x \<in> set xs. x \<in> set ys)"

section \<open>Base tables\<close>

text \<open>
  \<^verbatim>\<open>planet_osm_rels(id, tags, members)\<close>: \<^verbatim>\<open>members\<close> is a jsonb array of objects
  with the keys \<^verbatim>\<open>ref\<close>, \<^verbatim>\<open>role\<close> and \<^verbatim>\<open>type\<close>.
  \<^verbatim>\<open>planet_osm_ways(id, nodes, tags)\<close>: \<^verbatim>\<open>nodes\<close> is the ordered array of node ids.
  A table is the list of its rows in scan order.
\<close>

record member =
  m_ref :: int
  m_role :: string
  m_type :: string

record osm_rel =
  r_id :: int
  r_tags :: "jsonb option"
  r_members :: "member list"

record osm_way =
  w_id :: int
  w_nodes :: "int list"
  w_tags :: "jsonb option"

section \<open>The views of views.sql\<close>

text \<open>
  The file holds two revisions of the script. The views below follow the first one, the
  revision with the walkable filter (view 5), numbered as the script numbers them. A view
  is a function from the two base tables to the list of its rows. SQL does not fix the
  order of the rows of a view: the order of a list is the order in which the definition
  produces them, and says nothing about the order in which PostgreSQL returns them.
\<close>

subsection \<open>1. station\_platform\_ways\<close>

record spw_row =
  spw_relation_id :: int
  spw_station_name :: "string option"
  spw_way_ref :: int
  spw_member_role :: string
  spw_member_type :: string

definition stop_area :: "osm_rel \<Rightarrow> sql_bool" where
  "stop_area r =
     sql_and (sql_eq (jget (r_tags r) ''type'') ''public_transport'')
             (sql_eq (jget (r_tags r) ''public_transport'') ''stop_area'')"

definition station_platform_ways :: "osm_rel list \<Rightarrow> spw_row list" where
  "station_platform_ways rels =
     [\<lparr>spw_relation_id = r_id r, spw_station_name = jget (r_tags r) ''name'',
       spw_way_ref = m_ref m, spw_member_role = m_role m, spw_member_type = m_type m\<rparr>.
      r \<leftarrow> rels, is_true (stop_area r), m \<leftarrow> r_members r]"

subsection \<open>2. station\_platform\_nodes and 3. platform\_edges\_indexed\<close>

record spn_row =
  spn_relation_id :: int
  spn_station_name :: "string option"
  spn_node_id :: int

definition station_platform_nodes :: "osm_rel list \<Rightarrow> osm_way list \<Rightarrow> spn_row list" where
  "station_platform_nodes rels ways =
     [\<lparr>spn_relation_id = spw_relation_id spw, spn_station_name = spw_station_name spw,
       spn_node_id = n\<rparr>.
      spw \<leftarrow> station_platform_ways rels, w \<leftarrow> ways,
      w_id w = spw_way_ref spw,
      spw_member_role spw = ''platform'' \<and> spw_member_type spw = ''W'',
      n \<leftarrow> w_nodes w]"

record platform_edge =
  pe_relation_id :: int
  pe_station_name :: "string option"
  pe_way_id :: int
  pe_nodes :: "int list"
  pe_tags :: "jsonb option"
  pe_edge_ref :: "string option"

text \<open>
  The \<^verbatim>\<open>LATERAL\<close> subquery: the distinct stations with a platform node among
  the nodes of the way (\<^verbatim>\<open>spn.node_id = ANY(w.nodes)\<close>).
\<close>

definition stations_at :: "osm_rel list \<Rightarrow> osm_way list \<Rightarrow> int list \<Rightarrow> (int \<times> string option) list" where
  "stations_at rels ways ns =
     remdups [(spn_relation_id spn, spn_station_name spn).
              spn \<leftarrow> station_platform_nodes rels ways, spn_node_id spn \<in> set ns]"

definition platform_edges_indexed :: "osm_rel list \<Rightarrow> osm_way list \<Rightarrow> platform_edge list" where
  "platform_edges_indexed rels ways =
     [\<lparr>pe_relation_id = rid, pe_station_name = name, pe_way_id = w_id w,
       pe_nodes = w_nodes w, pe_tags = w_tags w, pe_edge_ref = jget (w_tags w) ''ref''\<rparr>.
      w \<leftarrow> ways, (rid, name) \<leftarrow> stations_at rels ways (w_nodes w),
      is_true (sql_eq (jget (w_tags w) ''railway'') ''platform_edge'')]"

subsection \<open>4. station\_ways\_with\_nodes\<close>

record station_way =
  relation_id :: int
  station_name :: "string option"
  way_id :: int
  nodes :: "int list"
  tags :: "jsonb option"

definition station_ways_with_nodes :: "osm_rel list \<Rightarrow> osm_way list \<Rightarrow> station_way list" where
  "station_ways_with_nodes rels ways =
     [\<lparr>relation_id = spw_relation_id spw, station_name = spw_station_name spw,
       way_id = w_id w, nodes = w_nodes w, tags = w_tags w\<rparr>.
      spw \<leftarrow> station_platform_ways rels, w \<leftarrow> ways,
      w_id w = spw_way_ref spw, spw_member_type spw = ''W'']"

subsection \<open>5. station\_walkable\_ways\<close>

definition walkable_highways :: "string list" where
  "walkable_highways =
     [''footway'', ''steps'', ''corridor'', ''pedestrian'',
      ''path'', ''cycleway'', ''crossing'',
      ''elevator'', ''escalator'', ''platform'', ''service'']"

text \<open>The \<^verbatim>\<open>WHERE\<close> condition of views 5 and 6, on a \<^verbatim>\<open>tags\<close> value.\<close>

definition walkable :: "jsonb option \<Rightarrow> sql_bool" where
  "walkable t =
     sql_and
       (sql_or
          (sql_or (sql_in (jget t ''highway'') walkable_highways)
                  (sql_in (jget t ''railway'') [''platform'', ''platform_edge'']))
          (jhas t ''conveying''))
       (is_distinct_from (jget t ''access'') ''private'')"

definition station_walkable_ways :: "osm_rel list \<Rightarrow> osm_way list \<Rightarrow> station_way list" where
  "station_walkable_ways rels ways =
     [s. s \<leftarrow> station_ways_with_nodes rels ways, is_true (walkable (tags s))]"

subsection \<open>6. station\_pedestrian\_ways\_with\_nodes\<close>

text \<open>\<^verbatim>\<open>SELECT DISTINCT\<close> removes duplicate rows.\<close>

definition station_pedestrian_ways_with_nodes ::
  "osm_rel list \<Rightarrow> osm_way list \<Rightarrow> station_way list" where
  "station_pedestrian_ways_with_nodes rels ways =
     remdups
       [\<lparr>relation_id = relation_id s, station_name = station_name s,
         way_id = w_id w, nodes = w_nodes w, tags = w_tags w\<rparr>.
        w \<leftarrow> ways, s \<leftarrow> station_walkable_ways rels ways,
        overlaps (w_nodes w) (nodes s), is_true (walkable (w_tags w))]"

subsection \<open>7. station\_ways\_with\_nodes\_plus\_pedestrian\<close>

text \<open>
  \<^verbatim>\<open>UNION\<close> (without \<^verbatim>\<open>ALL\<close>) removes duplicate rows. The rows of the result are
  faithful as a set; their order is not PostgreSQL's.
\<close>

definition station_ways_with_nodes_plus_pedestrian ::
  "osm_rel list \<Rightarrow> osm_way list \<Rightarrow> station_way list" where
  "station_ways_with_nodes_plus_pedestrian rels ways =
     remdups (station_walkable_ways rels ways @ station_pedestrian_ways_with_nodes rels ways)"

subsection \<open>8. station\_way\_segments\<close>

text \<open>
  The CTE \<^verbatim>\<open>ordered\<close>: one row per node of every way of view 7, with its 1-based
  position (\<^verbatim>\<open>unnest(s.nodes) WITH ORDINALITY\<close>).
\<close>

record ordered_row =
  o_relation_id :: int
  o_station_name :: "string option"
  o_way_id :: int
  o_node_id :: int
  o_ord :: nat

definition ordered :: "osm_rel list \<Rightarrow> osm_way list \<Rightarrow> ordered_row list" where
  "ordered rels ways =
     [\<lparr>o_relation_id = relation_id s, o_station_name = station_name s,
       o_way_id = way_id s, o_node_id = n, o_ord = i\<rparr>.
      s \<leftarrow> station_ways_with_nodes_plus_pedestrian rels ways,
      (n, i) \<leftarrow> zip (nodes s) [1 ..< Suc (length (nodes s))]]"

text \<open>
  The CTE \<^verbatim>\<open>with_next\<close>:
  \<^verbatim>\<open>lead(node_id) OVER (PARTITION BY way_id ORDER BY ord)\<close>. The window partition of a
  row is every row of \<^verbatim>\<open>ordered\<close> with the same \<^verbatim>\<open>way_id\<close> (whatever its
  \<^verbatim>\<open>relation_id\<close>), sorted by \<^verbatim>\<open>ord\<close>; \<^verbatim>\<open>lead\<close> is the \<^verbatim>\<open>node_id\<close> of the next
  row of the sorted partition, NULL on its last row. PostgreSQL leaves the order of rows
  with equal \<^verbatim>\<open>ord\<close> unspecified; here they keep their list order (\<open>sort_key\<close> is
  stable), which is one of the orders the database may produce and need not be the one
  it does produce.
\<close>

record with_next_row =
  wn_relation_id :: int
  wn_station_name :: "string option"
  wn_way_id :: int
  wn_node_from :: int
  wn_node_to :: "int option"

fun lead_node_id :: "ordered_row list \<Rightarrow> with_next_row list" where
  "lead_node_id [] = []"
| "lead_node_id [r] =
     [\<lparr>wn_relation_id = o_relation_id r, wn_station_name = o_station_name r,
       wn_way_id = o_way_id r, wn_node_from = o_node_id r, wn_node_to = None\<rparr>]"
| "lead_node_id (r # r' # rs) =
     \<lparr>wn_relation_id = o_relation_id r, wn_station_name = o_station_name r,
      wn_way_id = o_way_id r, wn_node_from = o_node_id r, wn_node_to = Some (o_node_id r')\<rparr>
     # lead_node_id (r' # rs)"

definition window_partition :: "ordered_row list \<Rightarrow> int \<Rightarrow> ordered_row list" where
  "window_partition rows w = sort_key o_ord [r. r \<leftarrow> rows, o_way_id r = w]"

text \<open>
  Any order of a window partition that PostgreSQL may produce: a permutation of the
  partition's rows that is sorted by \<^verbatim>\<open>ord\<close>. The stable sort of \<open>window_partition\<close> is
  one of them.
\<close>

definition window_order :: "ordered_row list \<Rightarrow> ordered_row list \<Rightarrow> bool" where
  "window_order part p = (mset p = mset part \<and> sorted (map o_ord p))"

definition with_next :: "osm_rel list \<Rightarrow> osm_way list \<Rightarrow> with_next_row list" where
  "with_next rels ways =
     (let rows = ordered rels ways
      in concat [lead_node_id (window_partition rows w). w \<leftarrow> remdups (map o_way_id rows)])"

record segment =
  seg_relation_id :: int
  seg_station_name :: "string option"
  seg_way_id :: int
  node_from :: int
  node_to :: int

definition station_way_segments :: "osm_rel list \<Rightarrow> osm_way list \<Rightarrow> segment list" where
  "station_way_segments rels ways =
     [\<lparr>seg_relation_id = wn_relation_id r, seg_station_name = wn_station_name r,
       seg_way_id = wn_way_id r, node_from = wn_node_from r, node_to = t\<rparr>.
      r \<leftarrow> with_next rels ways,
      t \<leftarrow> (case wn_node_to r of None \<Rightarrow> [] | Some t \<Rightarrow> [t])]"

section \<open>The walkable classification as the specification words it\<close>

text \<open>
  A way is walkable when its highway tag is one of the eleven listed values, or its
  railway tag is platform or platform\_edge, or it carries a conveying attribute, and
  its access tag is not private. Two-valued, on the tags of the way.
\<close>

definition walkable_classification :: "jsonb option \<Rightarrow> bool" where
  "walkable_classification t =
     (((case jget t ''highway'' of None \<Rightarrow> False
        | Some h \<Rightarrow> h \<in> {''footway'', ''steps'', ''corridor'', ''pedestrian'', ''path'',
            ''cycleway'', ''crossing'', ''elevator'', ''escalator'', ''platform'', ''service''})
       \<or> (case jget t ''railway'' of None \<Rightarrow> False
          | Some r \<Rightarrow> r \<in> {''platform'', ''platform_edge''})
       \<or> (case t of None \<Rightarrow> False | Some obj \<Rightarrow> ''conveying'' \<in> fst ` set obj))
      \<and> jget t ''access'' \<noteq> Some ''private'')"

section \<open>A small snapshot\<close>

text \<open>
  One stop area with two member ways, a platform (way 10) and a rail track (way 11),
  next to four ways that are not members: steps (way 12) touching the platform, a
  footway (way 13) touching only the track, and the platform edges of platforms 1 and 2
  (ways 14 and 15), which meet at node 4.
\<close>

definition ex_rels :: "osm_rel list" where
  "ex_rels =
     [\<lparr>r_id = 1,
       r_tags = Some [(''type'', ''public_transport''), (''public_transport'', ''stop_area''),
                      (''name'', ''A'')],
       r_members = [\<lparr>m_ref = 10, m_role = ''platform'', m_type = ''W''\<rparr>,
                    \<lparr>m_ref = 11, m_role = [], m_type = ''W''\<rparr>]\<rparr>]"

definition way10 :: osm_way where
  "way10 = \<lparr>w_id = 10, w_nodes = [1, 2], w_tags = Some [(''railway'', ''platform'')]\<rparr>"

definition way11 :: osm_way where
  "way11 = \<lparr>w_id = 11, w_nodes = [2, 3], w_tags = Some [(''railway'', ''rail'')]\<rparr>"

definition way12 :: osm_way where
  "way12 = \<lparr>w_id = 12, w_nodes = [2, 9], w_tags = Some [(''highway'', ''steps'')]\<rparr>"

definition way13 :: osm_way where
  "way13 = \<lparr>w_id = 13, w_nodes = [3, 7], w_tags = Some [(''highway'', ''footway'')]\<rparr>"

definition way14 :: osm_way where
  "way14 = \<lparr>w_id = 14, w_nodes = [1, 4],
             w_tags = Some [(''railway'', ''platform_edge''), (''ref'', ''1'')]\<rparr>"

definition way15 :: osm_way where
  "way15 = \<lparr>w_id = 15, w_nodes = [2, 4],
             w_tags = Some [(''railway'', ''platform_edge''), (''ref'', ''2'')]\<rparr>"

definition ex_ways :: "osm_way list" where
  "ex_ways = [way10, way11, way12, way13, way14, way15]"

definition member10 :: station_way where
  "member10 = \<lparr>relation_id = 1, station_name = Some ''A'', way_id = 10, nodes = [1, 2],
                tags = Some [(''railway'', ''platform'')]\<rparr>"

section \<open>One-hop expansion and platform edges, per station\<close>

text \<open>The member ways of the stop area \<open>rid\<close>: its rows of view 4.\<close>

definition member_ways :: "osm_rel list \<Rightarrow> osm_way list \<Rightarrow> int \<Rightarrow> station_way list" where
  "member_ways rels ways rid = [s. s \<leftarrow> station_ways_with_nodes rels ways, relation_id s = rid]"

text \<open>View 6 returns the way \<open>w\<close> for the stop area \<open>rid\<close>.\<close>

definition one_hop_returns :: "osm_rel list \<Rightarrow> osm_way list \<Rightarrow> int \<Rightarrow> osm_way \<Rightarrow> bool" where
  "one_hop_returns rels ways rid w =
     (\<exists>x \<in> set (station_pedestrian_ways_with_nodes rels ways).
        relation_id x = rid \<and> way_id x = w_id w \<and> nodes x = w_nodes w \<and> tags x = w_tags w)"

text \<open>
  What the specification says the one-hop stage returns: a way that is not a member of
  the stop area, shares a node with one of its member ways, and is classified walkable.
\<close>

definition one_hop_as_specified :: "osm_rel list \<Rightarrow> osm_way list \<Rightarrow> int \<Rightarrow> osm_way \<Rightarrow> bool" where
  "one_hop_as_specified rels ways rid w =
     (w \<in> set ways \<and> w_id w \<notin> set (map way_id (member_ways rels ways rid)) \<and>
      (\<exists>s \<in> set (member_ways rels ways rid). overlaps (w_nodes w) (nodes s)) \<and>
      walkable_classification (w_tags w))"



text \<open>
  Modelled from the spec: the Tier-2 adjoining relation of the Transfer Feasibility
  Evaluator, whose code (the opposite-platform check of the path finder) is not among the
  sources. Two platforms adjoin when their platform edges share at least one node. A
  platform is named by the \<^verbatim>\<open>ref\<close> of its edges: view 3 is queried by station and
  \<^verbatim>\<open>edge_ref\<close>.
\<close>

definition platform_edges_of ::
  "osm_rel list \<Rightarrow> osm_way list \<Rightarrow> int \<Rightarrow> string \<Rightarrow> platform_edge list" where
  "platform_edges_of rels ways rid p =
     [e. e \<leftarrow> platform_edges_indexed rels ways, pe_relation_id e = rid, pe_edge_ref e = Some p]"

definition adjoining :: "osm_rel list \<Rightarrow> osm_way list \<Rightarrow> int \<Rightarrow> string \<Rightarrow> string \<Rightarrow> bool" where
  "adjoining rels ways rid pa pd =
     (\<exists>ea \<in> set (platform_edges_of rels ways rid pa).
      \<exists>ed \<in> set (platform_edges_of rels ways rid pd). overlaps (pe_nodes ea) (pe_nodes ed))"

section \<open>Segments of one station\<close>

text \<open>
  \<^verbatim>\<open>getPrecomputedSegments(stationId) -> (wayId, nodeFrom, nodeTo)[]\<close>, the interface
  of the snapshot store: the rows of view 8 for one relation. The comments of the script
  say that the path finder reads the view through a filter on \<^verbatim>\<open>relation_id\<close>; the
  filter applies to the rows of the view, after the window function.
\<close>

definition getPrecomputedSegments ::
  "osm_rel list \<Rightarrow> osm_way list \<Rightarrow> int \<Rightarrow> (int \<times> int \<times> int) list" where
  "getPrecomputedSegments rels ways rid =
     [(seg_way_id s, node_from s, node_to s).
      s \<leftarrow> station_way_segments rels ways, seg_relation_id s = rid]"

text \<open>
  What the specification says the segments are: every way of the union (view 7) of the
  station, expanded into the pairs of adjacent nodes of its node sequence, each pair
  with the id of its way.
\<close>

definition consecutive_pairs :: "'a list \<Rightarrow> ('a \<times> 'a) list" where
  "consecutive_pairs xs = zip xs (tl xs)"

definition expand_into_pairs ::
  "osm_rel list \<Rightarrow> osm_way list \<Rightarrow> int \<Rightarrow> (int \<times> int \<times> int) list" where
  "expand_into_pairs rels ways rid =
     concat [map (\<lambda>(a, b). (way_id s, a, b)) (consecutive_pairs (nodes s)).
             s \<leftarrow> station_ways_with_nodes_plus_pedestrian rels ways, relation_id s = rid]"

text \<open>
  The rows of \<^verbatim>\<open>ordered\<close> that one row of view 7 contributes, counted from position \<open>k\<close>;
  the last \<^verbatim>\<open>SELECT\<close> of view 8 on a list of \<^verbatim>\<open>with_next\<close> rows; and the segments
  that the expansion into consecutive pairs gives one row of view 7.
\<close>

definition way_rows_from :: "station_way \<Rightarrow> nat \<Rightarrow> int list \<Rightarrow> ordered_row list" where
  "way_rows_from s k ns =
     map (\<lambda>(n, i). \<lparr>o_relation_id = relation_id s, o_station_name = station_name s,
                    o_way_id = way_id s, o_node_id = n, o_ord = i\<rparr>)
         (zip ns [k ..< k + length ns])"

definition not_null_segments :: "with_next_row list \<Rightarrow> segment list" where
  "not_null_segments rs =
     [\<lparr>seg_relation_id = wn_relation_id r, seg_station_name = wn_station_name r,
       seg_way_id = wn_way_id r, node_from = wn_node_from r, node_to = t\<rparr>.
      r \<leftarrow> rs, t \<leftarrow> (case wn_node_to r of None \<Rightarrow> [] | Some t \<Rightarrow> [t])]"

definition way_segments :: "station_way \<Rightarrow> segment list" where
  "way_segments s =
     map (\<lambda>(a, b). \<lparr>seg_relation_id = relation_id s, seg_station_name = station_name s,
                    seg_way_id = way_id s, node_from = a, node_to = b\<rparr>)
         (consecutive_pairs (nodes s))"

text \<open>
  Two stop areas that share a member way: the footway 20 with the nodes 100, 101, 102 is
  a member of both relation 1 and relation 2.
\<close>

definition stop_area_A :: osm_rel where
  "stop_area_A =
     \<lparr>r_id = 1,
      r_tags = Some [(''type'', ''public_transport''), (''public_transport'', ''stop_area''),
                     (''name'', ''A'')],
      r_members = [\<lparr>m_ref = 20, m_role = [], m_type = ''W''\<rparr>]\<rparr>"

definition stop_area_B :: osm_rel where
  "stop_area_B =
     \<lparr>r_id = 2,
      r_tags = Some [(''type'', ''public_transport''), (''public_transport'', ''stop_area''),
                     (''name'', ''B'')],
      r_members = [\<lparr>m_ref = 20, m_role = [], m_type = ''W''\<rparr>]\<rparr>"

definition shared_rels :: "osm_rel list" where
  "shared_rels = [stop_area_A, stop_area_B]"

definition shared_ways :: "osm_way list" where
  "shared_ways =
     [\<lparr>w_id = 20, w_nodes = [100, 101, 102], w_tags = Some [(''highway'', ''footway'')]\<rparr>]"

section \<open>The journey results component\<close>

text \<open>
  \<^verbatim>\<open>JourneyResults({ data, loading })\<close> of \<^verbatim>\<open>JourneyResults.jsx\<close>. The response
  \<^verbatim>\<open>data\<close> is the JSON of \<^verbatim>\<open>/api/journeys\<close> or \<^verbatim>\<open>{ error: message }\<close>; a field that
  is missing, \<^verbatim>\<open>undefined\<close> or \<^verbatim>\<open>null\<close> is \<open>None\<close>. A string is truthy when it is
  not empty; \<^verbatim>\<open>data.journeys || []\<close> is the list, or the empty list when it is missing.
  The component returns one of five renderings.
\<close>

record 'j response =
  error :: "string option"
  journeys :: "'j list option"

record 'j props =
  data :: "'j response option"
  loading :: bool

datatype 'j rendering =
    ResultsLoading
  | RenderNothing
  | ResultsError string
  | ResultsEmpty
  | JourneyList "'j list"

definition truthy :: "string option \<Rightarrow> bool" where
  "truthy v = (case v of None \<Rightarrow> False | Some s \<Rightarrow> s \<noteq> [])"

definition journeys_or_empty :: "'j response \<Rightarrow> 'j list" where
  "journeys_or_empty d = (case journeys d of None \<Rightarrow> [] | Some js \<Rightarrow> js)"

definition JourneyResults :: "'j props \<Rightarrow> 'j rendering" where
  "JourneyResults p =
     (if loading p then ResultsLoading
      else case data p of
        None \<Rightarrow> RenderNothing
      | Some d \<Rightarrow>
          if truthy (error d) then ResultsError (case error d of None \<Rightarrow> [] | Some msg \<Rightarrow> msg)
          else if length (journeys_or_empty d) = 0 then ResultsEmpty
          else JourneyList (journeys_or_empty d))"

section \<open>The autocomplete handler of the search bar\<close>

text \<open>
  \<^verbatim>\<open>handleChange(value, completion)\<close> of the search-bar dropdown. The state is what the
  handler can change: the input value, the \<^verbatim>\<open>showDropdown\<close> flag and the \<^verbatim>\<open>stations\<close>
  value, with the autocomplete requests issued and the calls of \<^verbatim>\<open>completion\<close> recorded.

  A string is the list of its UTF-16 code units, which is what \<^verbatim>\<open>value.length\<close> counts.
  \<^verbatim>\<open>encodeURIComponent(value)\<close> is evaluated inside the \<^verbatim>\<open>try\<close>, before \<^verbatim>\<open>fetch\<close> is
  called; it throws a \<^verbatim>\<open>URIError\<close> when the string has a lone surrogate (a high surrogate
  not followed by a low one, or a low surrogate not preceded by a high one), and then no
  request is issued.
\<close>

type_synonym js_string = "16 word list"

definition high_surrogate :: "16 word \<Rightarrow> bool" where
  "high_surrogate c = (0xD800 \<le> c \<and> c \<le> 0xDBFF)"

definition low_surrogate :: "16 word \<Rightarrow> bool" where
  "low_surrogate c = (0xDC00 \<le> c \<and> c \<le> 0xDFFF)"

fun uri_encodable :: "js_string \<Rightarrow> bool" where
  "uri_encodable [] = True"
| "uri_encodable [c] = (\<not> high_surrogate c \<and> \<not> low_surrogate c)"
| "uri_encodable (c # d # cs) =
     (if high_surrogate c then low_surrogate d \<and> uri_encodable cs
      else \<not> low_surrogate c \<and> uri_encodable (d # cs))"

text \<open>
  The outcome of \<^verbatim>\<open>fetch\<close> is an argument: a rejected promise, or a response with its
  \<^verbatim>\<open>ok\<close> flag and its body (\<open>None\<close> when \<^verbatim>\<open>res.json()\<close> throws). A body is a JSON
  value, told apart by what the handler does with it: an array is a station list and
  \<^verbatim>\<open>data.length\<close> is its number of elements; on \<^verbatim>\<open>null\<close> the read of \<^verbatim>\<open>data.length\<close>
  throws a \<^verbatim>\<open>TypeError\<close>, after \<^verbatim>\<open>setStations(data)\<close> has run; any other value (a
  string, a number, a boolean, an object) is given with the value that
  \<^verbatim>\<open>data.length > 0\<close> has on it. The result is the state once the handler has run to
  its end.
\<close>

datatype 's json_body =
    StationList "'s list"
  | JsonNull
  | OtherJson bool

datatype 's fetch_outcome =
    FetchRejected
  | FetchResponse bool "'s json_body option"

record 's dropdown =
  inputVal :: js_string
  showDropdown :: bool
  stations :: "'s json_body"
  requests :: "js_string list"
  completions :: nat

definition handleChange :: "js_string \<Rightarrow> 's fetch_outcome \<Rightarrow> 's dropdown \<Rightarrow> 's dropdown" where
  "handleChange val outcome st =
     (let st1 = st\<lparr>inputVal := val\<rparr>
      in if length val < 2
         then st1\<lparr>showDropdown := False, completions := Suc (completions st1)\<rparr>
         else
           let st3 =
                 (if \<not> uri_encodable val then st1
                  else
                    let st2 = st1\<lparr>requests := requests st1 @ [val]\<rparr>
                    in case outcome of
                         FetchResponse True (Some body) \<Rightarrow>
                           (let st' = st2\<lparr>stations := body\<rparr>
                            in case body of
                                 StationList xs \<Rightarrow> st'\<lparr>showDropdown := (length xs > 0)\<rparr>
                               | JsonNull \<Rightarrow> st'
                               | OtherJson positive \<Rightarrow> st'\<lparr>showDropdown := positive\<rparr>)
                       | _ \<Rightarrow> st2)
           in st3\<lparr>completions := Suc (completions st3)\<rparr>)"

text \<open>
  The inputs \<^verbatim>\<open>"P"\<close>, \<^verbatim>\<open>"Pa"\<close> and \<^verbatim>\<open>"Par"\<close>, an input of two code units that ends in
  a lone high surrogate, and a dropdown left open by an earlier response that listed one
  station.
\<close>

definition input_P :: js_string where
  "input_P = [0x50]"

definition input_Pa :: js_string where
  "input_Pa = [0x50, 0x61]"

definition input_Par :: js_string where
  "input_Par = [0x50, 0x61, 0x72]"

definition input_lone_surrogate :: js_string where
  "input_lone_surrogate = [0x61, 0xD83D]"

definition open_dropdown :: "string dropdown" where
  "open_dropdown =
     \<lparr>inputVal = input_Pa, showDropdown = True, stations = StationList [''Paris Nord''],
      requests = [input_Pa], completions = 1\<rparr>"

section \<open>Walkable graph, path search and feasibility tiers\<close>

text \<open>
  Modelled from the spec: the Station Graph Builder's output (section 4.1). The code
  that builds the in-memory graph from view 8 (the path finder) is not among the
  sources. Every node referenced by a way of the station's union is a graph node; every
  segment of the station is an undirected edge that carries the id of its way.
\<close>

record walkable_graph =
  g_nodes :: "int list"
  g_edges :: "(int \<times> int \<times> int) list"

definition build_graph :: "osm_rel list \<Rightarrow> osm_way list \<Rightarrow> int \<Rightarrow> walkable_graph" where
  "build_graph rels ways rid =
     \<lparr>g_nodes = remdups (concat [nodes s.
                  s \<leftarrow> station_ways_with_nodes_plus_pedestrian rels ways, relation_id s = rid]),
      g_edges = getPrecomputedSegments rels ways rid\<rparr>"

text \<open>
  Modelled from the spec: the Path Search Engine (section 4.2), absent from the sources.
  Without node coordinates every edge weighs 1 and the search is breadth-first; the
  virtual source is the queue of all origin anchors at distance 0. Each step explores one
  node and spends one unit of the explored-node budget; a spent budget and an empty
  queue both give \<open>UNREACHABLE\<close>.
\<close>

datatype search_result = HopCount nat | UNREACHABLE

definition neighbours :: "(int \<times> int \<times> int) list \<Rightarrow> int \<Rightarrow> int list" where
  "neighbours es n = [b. (w, a, b) \<leftarrow> es, a = n] @ [a. (w, a, b) \<leftarrow> es, b = n]"

fun bfs ::
  "nat \<Rightarrow> (int \<times> int \<times> int) list \<Rightarrow> int list \<Rightarrow> (int \<times> nat) list \<Rightarrow> int list \<Rightarrow> search_result"
  where
  "bfs 0 es seen queue sinks = UNREACHABLE"
| "bfs (Suc budget) es seen [] sinks = UNREACHABLE"
| "bfs (Suc budget) es seen ((n, d) # queue) sinks =
     (if n \<in> set sinks then HopCount d
      else let new = remdups [m. m \<leftarrow> neighbours es n, m \<notin> set seen]
           in bfs budget es (seen @ new) (queue @ [(m, Suc d). m \<leftarrow> new]) sinks)"

definition path_search ::
  "nat \<Rightarrow> (int \<times> int \<times> int) list \<Rightarrow> int list \<Rightarrow> int list \<Rightarrow> search_result" where
  "path_search budget es sources sinks =
     bfs budget es (remdups sources) [(s, 0). s \<leftarrow> remdups sources] sinks"

text \<open>
  Modelled from the spec: the Transfer Feasibility Evaluator's choice of tier
  (section 4.3, and the algorithm of the README), absent from the sources. The anchor of a
  platform is the set of graph nodes on its platform edges. Tier 1 applies on the same
  platform. Tier 2 applies when the platforms adjoin and the search restricted to the
  buffer and crossing ways finds a path. Tier 3 applies when the search of the full graph
  finds a path. Tier 4 always applies. The evaluator stops at the first tier that
  applies. The budget and the classification of ways as buffer or crossing are
  configuration.
\<close>

datatype tier = Tier1 | Tier2 | Tier3 | Tier4

record evaluator_config =
  search_budget :: nat
  buffer_or_crossing :: "int \<Rightarrow> bool"

definition anchor :: "osm_rel list \<Rightarrow> osm_way list \<Rightarrow> int \<Rightarrow> string \<Rightarrow> int list" where
  "anchor rels ways rid p =
     [n. n \<leftarrow> remdups (concat (map pe_nodes (platform_edges_of rels ways rid p))),
         n \<in> set (g_nodes (build_graph rels ways rid))]"

definition tier_applies ::
  "evaluator_config \<Rightarrow> osm_rel list \<Rightarrow> osm_way list \<Rightarrow> int \<Rightarrow> string \<Rightarrow> string \<Rightarrow> tier \<Rightarrow> bool"
  where
  "tier_applies cfg rels ways rid pa pd t =
     (case t of
        Tier1 \<Rightarrow> pa = pd
      | Tier2 \<Rightarrow>
          adjoining rels ways rid pa pd \<and>
          path_search (search_budget cfg)
            [e. e \<leftarrow> g_edges (build_graph rels ways rid), buffer_or_crossing cfg (fst e)]
            (anchor rels ways rid pa) (anchor rels ways rid pd) \<noteq> UNREACHABLE
      | Tier3 \<Rightarrow>
          path_search (search_budget cfg) (g_edges (build_graph rels ways rid))
            (anchor rels ways rid pa) (anchor rels ways rid pd) \<noteq> UNREACHABLE
      | Tier4 \<Rightarrow> True)"

definition tier_used ::
  "evaluator_config \<Rightarrow> osm_rel list \<Rightarrow> osm_way list \<Rightarrow> int \<Rightarrow> string \<Rightarrow> string \<Rightarrow> tier"
  where
  "tier_used cfg rels ways rid pa pd =
     (if tier_applies cfg rels ways rid pa pd Tier1 then Tier1
      else if tier_applies cfg rels ways rid pa pd Tier2 then Tier2
      else if tier_applies cfg rels ways rid pa pd Tier3 then Tier3
      else Tier4)"

fun tier_number :: "tier \<Rightarrow> nat" where
  "tier_number Tier1 = 1"
| "tier_number Tier2 = 2"
| "tier_number Tier3 = 3"
| "tier_number Tier4 = 4"

text \<open>A configuration, and a stop area whose relation has no members.\<close>

definition ex_config :: evaluator_config where
  "ex_config = \<lparr>search_budget = 1000, buffer_or_crossing = (\<lambda>w. True)\<rparr>"

definition empty_rels :: "osm_rel list" where
  "empty_rels =
     [\<lparr>r_id = 3,
       r_tags = Some [(''type'', ''public_transport''), (''public_transport'', ''stop_area''),
                      (''name'', ''C'')],
       r_members = []\<rparr>]"

section \<open>Journey assembly\<close>

text \<open>
  Modelled from the spec: the Journey Assembler's filter and ranking (section 4.4), absent
  from the sources. A candidate itinerary comes with its delay-adjusted total duration,
  its number of changes and its transfer points; the evaluator gives each transfer a
  verdict. Itineraries with an infeasible transfer are dropped; the others are ranked
  ascending by total duration, ties broken by fewer changes.
\<close>

datatype verdict = FEASIBLE | MARGINAL | INFEASIBLE

record 't journey =
  total_duration :: int
  change_count :: nat
  transfers :: "'t list"

definition survives :: "('t \<Rightarrow> verdict) \<Rightarrow> 't journey \<Rightarrow> bool" where
  "survives evaluate j = (INFEASIBLE \<notin> set (map evaluate (transfers j)))"

definition assemble :: "('t \<Rightarrow> verdict) \<Rightarrow> 't journey list \<Rightarrow> 't journey list" where
  "assemble evaluate candidates =
     sort_key (\<lambda>j. (total_duration j, change_count j)) [j. j \<leftarrow> candidates, survives evaluate j]"

text \<open>The ranking, spelled out: shorter first, and among equal durations fewer changes first.\<close>

definition ranks_before :: "'t journey \<Rightarrow> 't journey \<Rightarrow> bool" where
  "ranks_before j k =
     (total_duration j < total_duration k \<or>
      (total_duration j = total_duration k \<and> change_count j \<le> change_count k))"

text \<open>
  Three candidates, each transfer given by its window in seconds, and a verdict function
  on such windows to run the assembler with.
\<close>

definition window_verdict :: "int \<Rightarrow> verdict" where
  "window_verdict w = (if w < 120 then INFEASIBLE else if w < 150 then MARGINAL else FEASIBLE)"

definition ex_candidates :: "int journey list" where
  "ex_candidates =
     [\<lparr>total_duration = 7200, change_count = 2, transfers = [300, 130]\<rparr>,
      \<lparr>total_duration = 5400, change_count = 1, transfers = [60]\<rparr>,
      \<lparr>total_duration = 7200, change_count = 1, transfers = [600]\<rparr>]"

section \<open>Properties\<close>

subsection \<open>Three-valued conditions that are TRUE\<close>

lemma sql_and_true: "is_true (sql_and a b) \<longleftrightarrow> is_true a \<and> is_true b"
  by (induction a b rule: sql_and.induct) (auto simp: is_true_def)

lemma sql_or_true: "is_true (sql_or a b) \<longleftrightarrow> is_true a \<or> is_true b"
  by (induction a b rule: sql_or.induct) (auto simp: is_true_def)

lemma sql_in_true: "is_true (sql_in x cs) \<longleftrightarrow> (\<exists>v. x = Some v \<and> v \<in> set cs)"
  by (simp add: is_true_def sql_in_def split: option.splits)


lemma jhas_true: "is_true (jhas t k) \<longleftrightarrow> (\<exists>obj. t = Some obj \<and> k \<in> fst ` set obj)"
  by (simp add: is_true_def jhas_def split: option.splits)

lemma is_distinct_from_true: "is_true (is_distinct_from x c) \<longleftrightarrow> x \<noteq> Some c"
  by (simp add: is_true_def is_distinct_from_def)

lemma walkable_iff: "is_true (walkable t) = walkable_classification t"
  unfolding walkable_def walkable_classification_def
  by (simp add: sql_and_true sql_or_true sql_in_true jhas_true is_distinct_from_true
        walkable_highways_def split: option.splits)

subsection \<open>The rows of each view\<close>

lemma in_station_platform_ways:
  "p \<in> set (station_platform_ways rels) \<longleftrightarrow>
     (\<exists>r \<in> set rels. is_true (stop_area r) \<and> (\<exists>m \<in> set (r_members r).
        p = \<lparr>spw_relation_id = r_id r, spw_station_name = jget (r_tags r) ''name'',
          spw_way_ref = m_ref m, spw_member_role = m_role m, spw_member_type = m_type m\<rparr>))"
  by (auto simp: station_platform_ways_def split: if_splits)

lemma in_station_ways_with_nodes:
  "s \<in> set (station_ways_with_nodes rels ways) \<longleftrightarrow>
     (\<exists>spw \<in> set (station_platform_ways rels). \<exists>w \<in> set ways.
        w_id w = spw_way_ref spw \<and> spw_member_type spw = ''W'' \<and>
        s = \<lparr>relation_id = spw_relation_id spw, station_name = spw_station_name spw,
          way_id = w_id w, nodes = w_nodes w, tags = w_tags w\<rparr>)"
  by (force simp: station_ways_with_nodes_def split: if_splits)

lemma set_station_walkable_ways:
  "set (station_walkable_ways rels ways) =
     {s \<in> set (station_ways_with_nodes rels ways). is_true (walkable (tags s))}"
  by (auto simp: station_walkable_ways_def split: if_splits)

lemma in_station_pedestrian_ways_with_nodes:
  "x \<in> set (station_pedestrian_ways_with_nodes rels ways) \<longleftrightarrow>
     (\<exists>w \<in> set ways. \<exists>s \<in> set (station_walkable_ways rels ways).
        overlaps (w_nodes w) (nodes s) \<and> is_true (walkable (w_tags w)) \<and>
        x = \<lparr>relation_id = relation_id s, station_name = station_name s,
          way_id = w_id w, nodes = w_nodes w, tags = w_tags w\<rparr>)"
  by (force simp: station_pedestrian_ways_with_nodes_def split: if_splits)

lemma set_station_ways_with_nodes_plus_pedestrian:
  "set (station_ways_with_nodes_plus_pedestrian rels ways) =
     set (station_walkable_ways rels ways) \<union> set (station_pedestrian_ways_with_nodes rels ways)"
  by (simp add: station_ways_with_nodes_plus_pedestrian_def)

lemma pedestrian_walkable:
  "s \<in> set (station_pedestrian_ways_with_nodes rels ways) \<Longrightarrow> is_true (walkable (tags s))"
  by (auto simp: in_station_pedestrian_ways_with_nodes)

subsection \<open>Walkable classification\<close>

text \<open>
  Claim C1. The condition of views 5 and 6 is TRUE exactly on the tags the walkable
  classification accepts (one of the eleven highway values, or railway platform or
  platform\_edge, or a conveying key; and access other than private). A member way of a
  stop area is in the pathfinding union exactly when it is classified walkable, and so
  is a way of the table that touches a walkable member way.
\<close>

theorem walkable_classification_decides_union:
  "(is_true (walkable t) \<longleftrightarrow> walkable_classification t) \<and>
   (s \<in> set (station_ways_with_nodes rels ways) \<longrightarrow>
      (s \<in> set (station_ways_with_nodes_plus_pedestrian rels ways)
         \<longleftrightarrow> walkable_classification (tags s))) \<and>
   (w \<in> set ways \<and> m \<in> set (station_walkable_ways rels ways)
      \<and> overlaps (w_nodes w) (nodes m) \<longrightarrow>
      (\<lparr>relation_id = relation_id m, station_name = station_name m,
        way_id = w_id w, nodes = w_nodes w, tags = w_tags w\<rparr>
         \<in> set (station_ways_with_nodes_plus_pedestrian rels ways)
         \<longleftrightarrow> walkable_classification (w_tags w)))"
proof (intro conjI impI)
  show "is_true (walkable t) \<longleftrightarrow> walkable_classification t"
    by (rule walkable_iff)
next
  assume "s \<in> set (station_ways_with_nodes rels ways)"
  then show "s \<in> set (station_ways_with_nodes_plus_pedestrian rels ways)
         \<longleftrightarrow> walkable_classification (tags s)"
    using pedestrian_walkable [of s rels ways]
    by (auto simp: set_station_ways_with_nodes_plus_pedestrian set_station_walkable_ways
          walkable_iff)
next
  let ?row = "\<lparr>relation_id = relation_id m, station_name = station_name m,
        way_id = w_id w, nodes = w_nodes w, tags = w_tags w\<rparr>"
  assume a: "w \<in> set ways \<and> m \<in> set (station_walkable_ways rels ways)
      \<and> overlaps (w_nodes w) (nodes m)"
  show "?row \<in> set (station_ways_with_nodes_plus_pedestrian rels ways)
         \<longleftrightarrow> walkable_classification (w_tags w)"
  proof
    assume "?row \<in> set (station_ways_with_nodes_plus_pedestrian rels ways)"
    then have "is_true (walkable (tags ?row))"
      using pedestrian_walkable [of ?row rels ways]
      by (auto simp: set_station_ways_with_nodes_plus_pedestrian set_station_walkable_ways)
    then show "walkable_classification (w_tags w)"
      by (simp add: walkable_iff)
  next
    assume "walkable_classification (w_tags w)"
    then have "?row \<in> set (station_pedestrian_ways_with_nodes rels ways)"
      using a unfolding in_station_pedestrian_ways_with_nodes walkable_iff by blast
    then show "?row \<in> set (station_ways_with_nodes_plus_pedestrian rels ways)"
      by (simp add: set_station_ways_with_nodes_plus_pedestrian)
  qed
qed

theorem walkable_classification_decides_union_witness:
  "member10 \<in> set (station_ways_with_nodes ex_rels ex_ways) \<and>
   member10 \<in> set (station_ways_with_nodes_plus_pedestrian ex_rels ex_ways) \<and>
   (way12 \<in> set ex_ways \<and> member10 \<in> set (station_walkable_ways ex_rels ex_ways)
      \<and> overlaps (w_nodes way12) (nodes member10)) \<and>
   \<lparr>relation_id = relation_id member10, station_name = station_name member10,
     way_id = w_id way12, nodes = w_nodes way12, tags = w_tags way12\<rparr>
      \<in> set (station_ways_with_nodes_plus_pedestrian ex_rels ex_ways)"
proof -
  have h1: "member10 \<in> set (station_ways_with_nodes ex_rels ex_ways)"
    by code_simp
  have c1: "walkable_classification (tags member10)"
    by code_simp
  have h2: "way12 \<in> set ex_ways \<and> member10 \<in> set (station_walkable_ways ex_rels ex_ways)
      \<and> overlaps (w_nodes way12) (nodes member10)"
    by code_simp
  have c2: "walkable_classification (w_tags way12)"
    by code_simp
  show ?thesis
    using h1 c1 h2 c2
      walkable_classification_decides_union [of "tags member10" member10 ex_rels ex_ways way12 member10]
    by blast
qed

subsection \<open>Rows of one stop area\<close>

lemma in_member_ways:
  "s \<in> set (member_ways rels ways rid) \<longleftrightarrow>
     s \<in> set (station_ways_with_nodes rels ways) \<and> relation_id s = rid"
  by (auto simp: member_ways_def split: if_splits)

subsection \<open>One-hop expansion\<close>

text \<open>
  Claim C3, as stated, fails: the footway 13 is not a member of stop area 1, shares node 3
  with its member way 11 (a rail track) and is classified walkable, yet view 6 does not
  return it, since it touches no walkable member way.
\<close>

theorem one_hop_counterexample:
  "one_hop_as_specified ex_rels ex_ways 1 way13 \<and> \<not> one_hop_returns ex_rels ex_ways 1 way13"
  by code_simp

text \<open>
  Claim C3, amended. For a way of the table that is not a member of the stop area, view 6
  returns it exactly when it shares a node with a member way of the stop area that is
  itself classified walkable, and it is classified walkable. Every row the view returns
  shares a node with a member way of its stop area: nothing two hops away is included.
\<close>

theorem one_hop_expansion:
  "(w \<in> set ways \<and> w_id w \<notin> set (map way_id (member_ways rels ways rid)) \<longrightarrow>
      (one_hop_returns rels ways rid w \<longleftrightarrow>
         (\<exists>s \<in> set (member_ways rels ways rid).
            walkable_classification (tags s) \<and> overlaps (w_nodes w) (nodes s)) \<and>
         walkable_classification (w_tags w))) \<and>
   (x \<in> set (station_pedestrian_ways_with_nodes rels ways) \<longrightarrow>
      (\<exists>s \<in> set (member_ways rels ways (relation_id x)). overlaps (nodes x) (nodes s)))"
proof (intro conjI impI)
  assume a: "w \<in> set ways \<and> w_id w \<notin> set (map way_id (member_ways rels ways rid))"
  show "one_hop_returns rels ways rid w \<longleftrightarrow>
         (\<exists>s \<in> set (member_ways rels ways rid).
            walkable_classification (tags s) \<and> overlaps (w_nodes w) (nodes s)) \<and>
         walkable_classification (w_tags w)"
  proof
    assume "one_hop_returns rels ways rid w"
    then obtain w' s where ws: "w' \<in> set ways" "s \<in> set (station_walkable_ways rels ways)"
        "overlaps (w_nodes w') (nodes s)" "is_true (walkable (w_tags w'))"
        "relation_id s = rid" "w_nodes w' = w_nodes w" "w_tags w' = w_tags w"
      by (auto simp: one_hop_returns_def in_station_pedestrian_ways_with_nodes)
    from ws(2,5) have "s \<in> set (member_ways rels ways rid)" "walkable_classification (tags s)"
      by (auto simp: in_member_ways set_station_walkable_ways walkable_iff)
    with ws show "(\<exists>s \<in> set (member_ways rels ways rid).
            walkable_classification (tags s) \<and> overlaps (w_nodes w) (nodes s)) \<and>
         walkable_classification (w_tags w)"
      by (auto simp: walkable_iff)
  next
    assume "(\<exists>s \<in> set (member_ways rels ways rid).
            walkable_classification (tags s) \<and> overlaps (w_nodes w) (nodes s)) \<and>
         walkable_classification (w_tags w)"
    then obtain s where s: "s \<in> set (member_ways rels ways rid)"
        "walkable_classification (tags s)" "overlaps (w_nodes w) (nodes s)"
        and cw: "walkable_classification (w_tags w)"
      by blast
    from s have sw: "s \<in> set (station_walkable_ways rels ways)" and r: "relation_id s = rid"
      by (auto simp: in_member_ways set_station_walkable_ways walkable_iff)
    let ?x = "\<lparr>relation_id = relation_id s, station_name = station_name s,
          way_id = w_id w, nodes = w_nodes w, tags = w_tags w\<rparr>"
    have "?x \<in> set (station_pedestrian_ways_with_nodes rels ways)"
      unfolding in_station_pedestrian_ways_with_nodes
      using a sw s(3) cw by (auto simp: walkable_iff)
    then show "one_hop_returns rels ways rid w"
      unfolding one_hop_returns_def using r by (intro bexI [of _ ?x]) auto
  qed
next
  assume "x \<in> set (station_pedestrian_ways_with_nodes rels ways)"
  then show "\<exists>s \<in> set (member_ways rels ways (relation_id x)). overlaps (nodes x) (nodes s)"
    unfolding in_station_pedestrian_ways_with_nodes
    by (auto simp: in_member_ways set_station_walkable_ways)
qed

theorem one_hop_expansion_witness:
  "(way12 \<in> set ex_ways \<and> w_id way12 \<notin> set (map way_id (member_ways ex_rels ex_ways 1))) \<and>
   one_hop_returns ex_rels ex_ways 1 way12 \<and>
   \<lparr>relation_id = 1, station_name = Some ''A'', way_id = 12, nodes = [2, 9],
     tags = Some [(''highway'', ''steps'')]\<rparr>
     \<in> set (station_pedestrian_ways_with_nodes ex_rels ex_ways) \<and>
   (\<exists>s \<in> set (member_ways ex_rels ex_ways 1). overlaps [2, 9] (nodes s))"
proof -
  let ?x = "\<lparr>relation_id = 1, station_name = Some ''A'', way_id = 12, nodes = [2, 9],
     tags = Some [(''highway'', ''steps'')]\<rparr>"
  have h: "way12 \<in> set ex_ways \<and> w_id way12 \<notin> set (map way_id (member_ways ex_rels ex_ways 1))"
    by code_simp
  have c: "(\<exists>s \<in> set (member_ways ex_rels ex_ways 1).
            walkable_classification (tags s) \<and> overlaps (w_nodes way12) (nodes s)) \<and>
         walkable_classification (w_tags way12)"
    by code_simp
  have x: "?x \<in> set (station_pedestrian_ways_with_nodes ex_rels ex_ways)"
    by code_simp
  show ?thesis
    using h c x one_hop_expansion [of way12 ex_ways ex_rels 1 ?x]
    by simp
qed

subsection \<open>Platform edges\<close>











subsection \<open>Segments of ways that no two stations share\<close>

lemma ordered_concat:
  "ordered rels ways =
     concat (map (\<lambda>s. way_rows_from s 1 (nodes s)) (station_ways_with_nodes_plus_pedestrian rels ways))"
  by (simp add: ordered_def way_rows_from_def case_prod_unfold)

lemma upt_shift: "[k ..< Suc (k + n)] = k # [Suc k ..< Suc (k + n)]"
  by (subst upt_rec) simp

lemma way_rows_from_Cons:
  "way_rows_from s k (n # ns) =
     \<lparr>o_relation_id = relation_id s, o_station_name = station_name s,
      o_way_id = way_id s, o_node_id = n, o_ord = k\<rparr> # way_rows_from s (Suc k) ns"
  by (simp add: way_rows_from_def upt_shift del: upt_Suc)

lemma way_rows_from_Nil: "way_rows_from s k [] = []"
  by (simp add: way_rows_from_def)

lemma way_rows_from_way_id:
  "map o_way_id (way_rows_from s k ns) = replicate (length ns) (way_id s)"
  by (induction ns arbitrary: k) (simp_all add: way_rows_from_Nil way_rows_from_Cons)

lemma way_rows_from_ord: "map o_ord (way_rows_from s k ns) = [k ..< k + length ns]"
  by (induction ns arbitrary: k)
     (simp_all add: way_rows_from_Nil way_rows_from_Cons upt_shift del: upt_Suc)

lemma sort_way_rows: "sort_key o_ord (way_rows_from s k ns) = way_rows_from s k ns"
  by (rule sort_key_id_if_sorted) (simp add: way_rows_from_ord)

lemma filter_way_rows:
  "filter (\<lambda>r. o_way_id r = w) (way_rows_from s k ns) =
     (if way_id s = w then way_rows_from s k ns else [])"
  by (induction ns arbitrary: k) (simp_all add: way_rows_from_Nil way_rows_from_Cons)

lemma not_null_segments_append:
  "not_null_segments (xs @ ys) = not_null_segments xs @ not_null_segments ys"
  by (simp add: not_null_segments_def)

lemma not_null_segments_concat:
  "not_null_segments (concat xss) = concat (map not_null_segments xss)"
  by (induction xss) (simp_all add: not_null_segments_append, simp add: not_null_segments_def)

lemma station_way_segments_alt:
  "station_way_segments rels ways = not_null_segments (with_next rels ways)"
  by (simp add: station_way_segments_def not_null_segments_def)

lemma lead_way_rows:
  "not_null_segments (lead_node_id (way_rows_from s k ns)) =
     map (\<lambda>(a, b). \<lparr>seg_relation_id = relation_id s, seg_station_name = station_name s,
                    seg_way_id = way_id s, node_from = a, node_to = b\<rparr>)
         (zip ns (tl ns))"
proof (induction ns arbitrary: k rule: induct_list012)
  case 1
  then show ?case by (simp add: way_rows_from_Nil not_null_segments_def)
next
  case (2 n)
  then show ?case by (simp add: way_rows_from_Nil way_rows_from_Cons not_null_segments_def)
next
  case (3 n n' ns)
  from 3(2) [of "Suc k"] show ?case
    by (simp add: way_rows_from_Cons not_null_segments_def)
qed

lemma window_of_way:
  assumes "distinct (map way_id U)" and "s \<in> set U"
  shows "window_partition (concat (map (\<lambda>s. way_rows_from s 1 (nodes s)) U)) (way_id s) =
           way_rows_from s 1 (nodes s)"
proof -
  have "[r. r \<leftarrow> concat (map (\<lambda>s. way_rows_from s 1 (nodes s)) U), o_way_id r = way_id s] =
          way_rows_from s 1 (nodes s)"
    using assms
  proof (induction U)
    case Nil
    then show ?case by simp
  next
    case (Cons x U)
    have flt: "[r. r \<leftarrow> xs, o_way_id r = w] = filter (\<lambda>r. o_way_id r = w) xs" for xs w
      by (induction xs) auto
    show ?case
    proof (cases "x = s")
      case True
      from Cons.prems(1) have "way_id x \<notin> way_id ` set U"
        by simp
      with True have "\<forall>y \<in> set U. way_id y \<noteq> way_id s"
        by (auto simp: image_iff)
      then have "filter (\<lambda>r. o_way_id r = way_id s) (concat (map (\<lambda>s. way_rows_from s 1 (nodes s)) U)) = []"
        by (induction U) (simp_all add: filter_way_rows)
      with True show ?thesis
        by (simp add: flt filter_way_rows)
    next
      case False
      with Cons.prems have "s \<in> set U" "way_id x \<noteq> way_id s" "distinct (map way_id U)"
        by auto
      with Cons.IH show ?thesis
        by (simp add: flt filter_way_rows)
    qed
  qed
  then show ?thesis
    by (simp add: window_partition_def sort_way_rows)
qed

lemma remdups_way_ids:
  assumes "distinct (map way_id U)"
  shows "remdups (map o_way_id (concat (map (\<lambda>s. way_rows_from s 1 (nodes s)) U))) =
           map way_id (filter (\<lambda>s. nodes s \<noteq> []) U)"
  using assms
proof (induction U)
  case Nil
  then show ?case by simp
next
  case (Cons x U)
  have rep: "remdups (replicate n a @ ys) = (if n = 0 then remdups ys else a # remdups ys)"
    if "a \<notin> set ys" for n and a :: int and ys
    using that by (induction n) auto
  have "way_id x \<notin> set (map o_way_id (concat (map (\<lambda>s. way_rows_from s 1 (nodes s)) U)))"
    using Cons.prems by (auto simp: way_rows_from_def)
  from rep [OF this] Cons show ?case
    by (simp add: way_rows_from_way_id)
qed

lemma segments_of_unshared_ways:
  assumes "distinct (map way_id (station_ways_with_nodes_plus_pedestrian rels ways))"
  shows "station_way_segments rels ways =
           concat (map way_segments (station_ways_with_nodes_plus_pedestrian rels ways))"
proof -
  let ?U = "station_ways_with_nodes_plus_pedestrian rels ways"
  let ?rows = "\<lambda>s. way_rows_from s 1 (nodes s)"
  have "with_next rels ways =
          concat (map (\<lambda>w. lead_node_id (window_partition (concat (map ?rows ?U)) w))
                      (map way_id (filter (\<lambda>s. nodes s \<noteq> []) ?U)))"
    unfolding with_next_def Let_def ordered_concat remdups_way_ids [OF assms] ..
  also have "\<dots> = concat (map (\<lambda>s. lead_node_id (?rows s)) (filter (\<lambda>s. nodes s \<noteq> []) ?U))"
    unfolding map_map comp_def
  proof (intro arg_cong [where f = concat] map_cong refl)
    fix s
    assume "s \<in> set (filter (\<lambda>s. nodes s \<noteq> []) ?U)"
    then have "s \<in> set ?U"
      by simp
    from window_of_way [OF assms this]
    show "lead_node_id (window_partition (concat (map ?rows ?U)) (way_id s)) =
            lead_node_id (?rows s)"
      by simp
  qed
  finally have "station_way_segments rels ways =
      concat (map (\<lambda>s. not_null_segments (lead_node_id (?rows s))) (filter (\<lambda>s. nodes s \<noteq> []) ?U))"
    by (simp add: station_way_segments_alt not_null_segments_concat comp_def)
  also have "\<dots> = concat (map way_segments (filter (\<lambda>s. nodes s \<noteq> []) ?U))"
  proof -
    have "not_null_segments (lead_node_id (?rows s)) = way_segments s" for s
      by (simp add: lead_way_rows way_segments_def consecutive_pairs_def)
    then show ?thesis
      by simp
  qed
  also have "\<dots> = concat (map way_segments ?U)"
  proof -
    have "concat (map way_segments (filter (\<lambda>s. nodes s \<noteq> []) U)) = concat (map way_segments U)"
      for U
      by (induction U) (simp_all add: way_segments_def consecutive_pairs_def)
    then show ?thesis .
  qed
  finally show ?thesis .
qed

lemma expand_into_pairs_way_segments:
  "expand_into_pairs rels ways rid =
     [(seg_way_id s, node_from s, node_to s).
      s \<leftarrow> concat (map way_segments (station_ways_with_nodes_plus_pedestrian rels ways)),
      seg_relation_id s = rid]"
proof -
  have "concat [map (\<lambda>(a, b). (way_id s, a, b)) (consecutive_pairs (nodes s)). s \<leftarrow> U, relation_id s = rid] =
     [(seg_way_id s, node_from s, node_to s). s \<leftarrow> concat (map way_segments U), seg_relation_id s = rid]"
    for U
  proof (induction U)
    case Nil
    then show ?case by simp
  next
    case (Cons x U)
    have "[(seg_way_id s, node_from s, node_to s).
           s \<leftarrow> map (\<lambda>(a, b). \<lparr>seg_relation_id = relation_id x, seg_station_name = station_name x,
                    seg_way_id = way_id x, node_from = a, node_to = b\<rparr>) ps,
           seg_relation_id s = rid] =
        (if relation_id x = rid then map (\<lambda>(a, b). (way_id x, a, b)) ps else [])" for ps
      by (induction ps) auto
    with Cons show ?case by (simp add: way_segments_def)
  qed
  then show ?thesis
    by (simp add: expand_into_pairs_def)
qed

text \<open>
  When no way occurs in the union under two stations, the segments of a station are the
  expansion of its ways into consecutive pairs, in the same order.
\<close>

lemma unshared_ways_expand:
  assumes "distinct (map way_id (station_ways_with_nodes_plus_pedestrian rels ways))"
  shows "getPrecomputedSegments rels ways rid = expand_into_pairs rels ways rid"
  by (simp add: getPrecomputedSegments_def expand_into_pairs_way_segments
        segments_of_unshared_ways [OF assms])

subsection \<open>Segments of a way shared by two stop areas\<close>

text \<open>
  Claim C2 at the snapshot with the shared footway 20. The segments view gives stop
  area 1 three self-loops, where the expansion of the union into consecutive pairs has
  the two pairs (100, 101) and (101, 102): the window of way 20 holds the rows of both
  relations, so the row after a node of relation 1 is the same node of relation 2.
\<close>

theorem shared_way_segments:
  "getPrecomputedSegments shared_rels shared_ways 1 =
     [(20, 100, 100), (20, 101, 101), (20, 102, 102)] \<and>
   expand_into_pairs shared_rels shared_ways 1 = [(20, 100, 101), (20, 101, 102)]"
  by code_simp

lemma window_partition_order:
  "window_order [r. r \<leftarrow> rows, o_way_id r = w] (window_partition rows w)"
  by (simp add: window_order_def window_partition_def)

lemma shared_way_window:
  "[r. r \<leftarrow> ordered shared_rels shared_ways, o_way_id r = 20] =
     [\<lparr>o_relation_id = 1, o_station_name = Some ''A'', o_way_id = 20, o_node_id = 100, o_ord = 1\<rparr>,
      \<lparr>o_relation_id = 1, o_station_name = Some ''A'', o_way_id = 20, o_node_id = 101, o_ord = 2\<rparr>,
      \<lparr>o_relation_id = 1, o_station_name = Some ''A'', o_way_id = 20, o_node_id = 102, o_ord = 3\<rparr>,
      \<lparr>o_relation_id = 2, o_station_name = Some ''B'', o_way_id = 20, o_node_id = 100, o_ord = 1\<rparr>,
      \<lparr>o_relation_id = 2, o_station_name = Some ''B'', o_way_id = 20, o_node_id = 101, o_ord = 2\<rparr>,
      \<lparr>o_relation_id = 2, o_station_name = Some ''B'', o_way_id = 20, o_node_id = 102, o_ord = 3\<rparr>]"
  by code_simp

text \<open>
  In every order of the window of way 20 that is sorted by \<^verbatim>\<open>ord\<close>, the first two rows are
  the two copies of node 100, so \<^verbatim>\<open>lead\<close> yields the self-loop (100, 100) for one of
  the two stations.
\<close>

lemma shared_way_any_order:
  assumes "window_order [r. r \<leftarrow> ordered shared_rels shared_ways, o_way_id r = 20] p"
  shows "\<exists>r \<in> set (lead_node_id p). wn_node_from r = 100 \<and> wn_node_to r = Some 100"
proof -
  let ?rows = "[r. r \<leftarrow> ordered shared_rels shared_ways, o_way_id r = 20]"
  from assms have m: "mset p = mset ?rows" and srt: "sorted (map o_ord p)"
    by (simp_all add: window_order_def)
  have len: "length p = 6"
    using mset_eq_length [OF m] by (simp add: shared_way_window)
  have setp: "set p = set ?rows"
    by (rule mset_eq_setD [OF m])
  have "mset (filter (\<lambda>r. o_ord r = 1) p) = mset (filter (\<lambda>r. o_ord r = 1) ?rows)"
    using m by (simp only: mset_filter)
  from mset_eq_length [OF this]
  have ones: "length (filter (\<lambda>r. o_ord r = 1) p) = 2"
    by (simp add: shared_way_window)
  have node: "\<forall>r \<in> set p. 1 \<le> o_ord r \<and> (o_ord r = 1 \<longrightarrow> o_node_id r = 100)"
    unfolding setp by (simp add: shared_way_window)
  from len obtain a b rest where p: "p = a # b # rest"
    by (cases p; cases "tl p") auto
  have "o_ord b = 1"
  proof (rule ccontr)
    assume "o_ord b \<noteq> 1"
    with node p have "1 < o_ord b" by force
    with srt p have "\<forall>x \<in> set (b # rest). o_ord x \<noteq> 1"
      by auto
    then have "filter (\<lambda>r. o_ord r = 1) (b # rest) = []"
      by (simp add: filter_empty_conv)
    then have "length (filter (\<lambda>r. o_ord r = 1) p) \<le> 1"
      unfolding p by simp
    with ones show False by simp
  qed
  moreover from this srt p node have "o_ord a = 1"
    by force
  ultimately have "o_node_id a = 100" "o_node_id b = 100"
    using node p by auto
  then show ?thesis
    unfolding p by simp
qed

subsection \<open>The graph and the contents of the tables\<close>

lemma station_platform_ways_cong:
  assumes "set rels' = set rels"
  shows "set (station_platform_ways rels') = set (station_platform_ways rels)"
  by (rule set_eqI) (simp add: in_station_platform_ways assms)

lemma station_ways_with_nodes_cong:
  assumes "set rels' = set rels" and "set ways' = set ways"
  shows "set (station_ways_with_nodes rels' ways') = set (station_ways_with_nodes rels ways)"
  by (rule set_eqI)
     (simp add: in_station_ways_with_nodes station_platform_ways_cong [OF assms(1)] assms(2))

lemma union_cong:
  assumes "set rels' = set rels" and "set ways' = set ways"
  shows "set (station_ways_with_nodes_plus_pedestrian rels' ways') =
         set (station_ways_with_nodes_plus_pedestrian rels ways)"
proof -
  have w: "set (station_walkable_ways rels' ways') = set (station_walkable_ways rels ways)"
    by (simp add: set_station_walkable_ways station_ways_with_nodes_cong [OF assms])
  have "set (station_pedestrian_ways_with_nodes rels' ways') =
        set (station_pedestrian_ways_with_nodes rels ways)"
    by (rule set_eqI) (simp add: in_station_pedestrian_ways_with_nodes w assms(2))
  with w show ?thesis
    by (simp add: set_station_ways_with_nodes_plus_pedestrian)
qed

lemma set_expand_into_pairs:
  "set (expand_into_pairs rels ways rid) =
     (\<Union>s \<in> {s \<in> set (station_ways_with_nodes_plus_pedestrian rels ways). relation_id s = rid}.
        (\<lambda>(a, b). (way_id s, a, b)) ` set (consecutive_pairs (nodes s)))"
  by (auto simp: expand_into_pairs_def split: if_splits)

lemma set_graph_nodes:
  "set (g_nodes (build_graph rels ways rid)) =
     (\<Union>s \<in> {s \<in> set (station_ways_with_nodes_plus_pedestrian rels ways). relation_id s = rid}.
        set (nodes s))"
  by (auto simp: build_graph_def split: if_splits)

lemma distinct_union:
  "distinct (station_ways_with_nodes_plus_pedestrian rels ways)"
  by (simp add: station_ways_with_nodes_plus_pedestrian_def)

text \<open>
  The graph of a station as a function of the contents of the tables, whatever the order
  of their rows: the node set always, the segment set when no way occurs in the union
  under two stations.
\<close>

lemma unshared_ways_same_graph:
  assumes "set rels' = set rels" and "set ways' = set ways"
    and "distinct (map way_id (station_ways_with_nodes_plus_pedestrian rels ways))"
  shows "set (g_nodes (build_graph rels' ways' rid)) = set (g_nodes (build_graph rels ways rid))"
    and "set (g_edges (build_graph rels' ways' rid)) = set (g_edges (build_graph rels ways rid))"
proof -
  let ?U = "station_ways_with_nodes_plus_pedestrian rels ways"
  let ?U' = "station_ways_with_nodes_plus_pedestrian rels' ways'"
  have u: "set ?U' = set ?U"
    by (rule union_cong [OF assms(1,2)])
  show "set (g_nodes (build_graph rels' ways' rid)) = set (g_nodes (build_graph rels ways rid))"
    by (simp only: set_graph_nodes u)
  from assms(3) have "inj_on way_id (set ?U)"
    by (simp add: distinct_map)
  with u have "distinct (map way_id ?U')"
    by (simp add: distinct_map distinct_union)
  from unshared_ways_expand [OF this] unshared_ways_expand [OF assms(3)]
  show "set (g_edges (build_graph rels' ways' rid)) = set (g_edges (build_graph rels ways rid))"
    by (simp add: build_graph_def set_expand_into_pairs u)
qed

subsection \<open>A station without member ways\<close>

lemma comprehension_empty:
  "concat (map (\<lambda>x. if P x then [f x] else []) xs) = [] \<longleftrightarrow> (\<forall>x \<in> set xs. \<not> P x)"
  by (induction xs) auto

lemma union_relation_is_member:
  assumes "s \<in> set (station_ways_with_nodes_plus_pedestrian rels ways)"
  shows "\<exists>m \<in> set (station_ways_with_nodes rels ways). relation_id m = relation_id s"
  using assms
  by (auto simp: set_station_ways_with_nodes_plus_pedestrian set_station_walkable_ways
        in_station_pedestrian_ways_with_nodes)

lemma ordered_relation:
  assumes "r \<in> set (ordered rels ways)"
  shows "\<exists>s \<in> set (station_ways_with_nodes_plus_pedestrian rels ways).
           relation_id s = o_relation_id r"
  using assms by (auto simp: ordered_def)

lemma lead_node_id_relation:
  "r \<in> set (lead_node_id xs) \<Longrightarrow> \<exists>x \<in> set xs. o_relation_id x = wn_relation_id r"
  by (induction xs rule: lead_node_id.induct) auto

lemma with_next_relation:
  assumes "r \<in> set (with_next rels ways)"
  shows "\<exists>x \<in> set (ordered rels ways). o_relation_id x = wn_relation_id r"
proof -
  from assms obtain w where "r \<in> set (lead_node_id (window_partition (ordered rels ways) w))"
    by (auto simp: with_next_def Let_def)
  then obtain x where "x \<in> set (window_partition (ordered rels ways) w)"
      "o_relation_id x = wn_relation_id r"
    using lead_node_id_relation by blast
  then show ?thesis
    by (auto simp: window_partition_def)
qed

lemma segment_relation:
  assumes "s \<in> set (station_way_segments rels ways)"
  shows "\<exists>r \<in> set (with_next rels ways). wn_relation_id r = seg_relation_id s"
  using assms by (auto simp: station_way_segments_def split: option.splits)

lemma segment_relation_is_member:
  assumes "s \<in> set (station_way_segments rels ways)"
  shows "\<exists>m \<in> set (station_ways_with_nodes rels ways). relation_id m = seg_relation_id s"
  using assms segment_relation with_next_relation ordered_relation union_relation_is_member
  by metis

lemma member_ways_empty:
  "member_ways rels ways rid = [] \<longleftrightarrow>
     (\<forall>m \<in> set (station_ways_with_nodes rels ways). relation_id m \<noteq> rid)"
  unfolding member_ways_def comprehension_empty ..

lemma no_way_members:
  assumes "\<forall>r \<in> set rels. r_id r = rid \<longrightarrow> (\<forall>m \<in> set (r_members r). m_type m \<noteq> ''W'')"
  shows "member_ways rels ways rid = []"
  unfolding member_ways_empty using assms
  by (auto simp: in_station_ways_with_nodes in_station_platform_ways)

lemma no_members_no_segments:
  assumes "member_ways rels ways rid = []"
  shows "getPrecomputedSegments rels ways rid = []"
  unfolding getPrecomputedSegments_def comprehension_empty
  using assms segment_relation_is_member by (fastforce simp: member_ways_empty)

lemma no_members_no_nodes:
  assumes "member_ways rels ways rid = []"
  shows "[nodes s. s \<leftarrow> station_ways_with_nodes_plus_pedestrian rels ways, relation_id s = rid] = []"
  unfolding comprehension_empty
  using assms union_relation_is_member by (fastforce simp: member_ways_empty)

lemma no_members_empty_graph:
  assumes "member_ways rels ways rid = []"
  shows "build_graph rels ways rid = \<lparr>g_nodes = [], g_edges = []\<rparr>"
proof -
  have "build_graph rels ways rid = \<lparr>g_nodes = remdups (concat []), g_edges = []\<rparr>"
    unfolding build_graph_def no_members_no_nodes [OF assms] no_members_no_segments [OF assms] ..
  then show ?thesis
    by simp
qed

lemma path_search_no_sources: "path_search budget es [] sinks = UNREACHABLE"
  by (cases budget) (simp_all add: path_search_def)

lemma anchor_empty_graph:
  assumes "g_nodes (build_graph rels ways rid) = []"
  shows "anchor rels ways rid p = []"
  using assms by (simp add: anchor_def)

text \<open>
  Claim C6, as stated, fails: at a stop area without members the graph is empty, yet a
  transfer that stays on one platform resolves via Tier 1, not Tier 4.
\<close>

theorem empty_station_counterexample:
  "member_ways empty_rels [] 3 = [] \<and>
   build_graph empty_rels [] 3 = \<lparr>g_nodes = [], g_edges = []\<rparr> \<and>
   tier_used ex_config empty_rels [] 3 ''1'' ''1'' \<noteq> Tier4"
  by code_simp

text \<open>
  Claim C6, amended. A station without member ways (in particular one whose relation
  lists no member of type W, lemma \<open>no_way_members\<close>) has an empty graph: no nodes, no
  edges, no segments; the construction is total, so nothing is raised. A transfer between
  two different platforms of such a station resolves via Tier 4.
\<close>

theorem empty_station:
  assumes "member_ways rels ways rid = []"
  shows "build_graph rels ways rid = \<lparr>g_nodes = [], g_edges = []\<rparr> \<and>
    getPrecomputedSegments rels ways rid = [] \<and>
    (pa \<noteq> pd \<longrightarrow> tier_used cfg rels ways rid pa pd = Tier4)"
proof (intro conjI impI)
  show g: "build_graph rels ways rid = \<lparr>g_nodes = [], g_edges = []\<rparr>"
    by (rule no_members_empty_graph [OF assms])
  show "getPrecomputedSegments rels ways rid = []"
    by (rule no_members_no_segments [OF assms])
  assume "pa \<noteq> pd"
  moreover have "anchor rels ways rid pa = []"
    by (rule anchor_empty_graph) (simp add: g)
  ultimately show "tier_used cfg rels ways rid pa pd = Tier4"
    by (simp add: tier_used_def tier_applies_def path_search_no_sources)
qed

theorem empty_station_witness:
  "member_ways empty_rels ex_ways 3 = [] \<and>
   build_graph empty_rels ex_ways 3 = \<lparr>g_nodes = [], g_edges = []\<rparr> \<and>
   (''1'' \<noteq> ''2'' \<and> tier_used ex_config empty_rels ex_ways 3 ''1'' ''2'' = Tier4)"
proof -
  have h: "member_ways empty_rels ex_ways 3 = []"
    by code_simp
  have d: "''1'' \<noteq> ''2''"
    by simp
  show ?thesis
    using h d empty_station [OF h, of "''1''" "''2''" ex_config]
    by simp
qed

subsection \<open>Feasibility tiers\<close>

text \<open>
  Claim C5. The tier the evaluator uses applies, and no tier before it in the order 1 to 4
  applies: the first applicable tier wins. When the platforms are equal, the tier is 1
  and never greater.
\<close>

theorem first_applicable_tier:
  "tier_applies cfg rels ways rid pa pd (tier_used cfg rels ways rid pa pd) \<and>
   (\<forall>t. tier_number t < tier_number (tier_used cfg rels ways rid pa pd) \<longrightarrow>
        \<not> tier_applies cfg rels ways rid pa pd t) \<and>
   (pa = pd \<longrightarrow> tier_used cfg rels ways rid pa pd = Tier1
             \<and> \<not> 1 < tier_number (tier_used cfg rels ways rid pa pd))"
proof (intro conjI allI impI)
  show "tier_applies cfg rels ways rid pa pd (tier_used cfg rels ways rid pa pd)"
    by (simp add: tier_used_def) (simp add: tier_applies_def)
next
  fix t
  assume "tier_number t < tier_number (tier_used cfg rels ways rid pa pd)"
  then show "\<not> tier_applies cfg rels ways rid pa pd t"
    by (cases t) (auto simp: tier_used_def split: if_splits)
next
  assume "pa = pd"
  then show "tier_used cfg rels ways rid pa pd = Tier1"
    by (simp add: tier_used_def tier_applies_def)
  then show "\<not> 1 < tier_number (tier_used cfg rels ways rid pa pd)"
    by simp
qed


theorem first_applicable_tier_witness:
  "(tier_number Tier1 < tier_number (tier_used ex_config ex_rels ex_ways 1 ''1'' ''2'')
      \<and> \<not> tier_applies ex_config ex_rels ex_ways 1 ''1'' ''2'' Tier1) \<and>
   (''1'' = ''1'' \<and> tier_used ex_config ex_rels ex_ways 1 ''1'' ''1'' = Tier1)"
proof -
  have h: "tier_number Tier1 < tier_number (tier_used ex_config ex_rels ex_ways 1 ''1'' ''2'')"
    by code_simp
  show ?thesis
    using h first_applicable_tier [of ex_config ex_rels ex_ways 1 "''1''" "''2''"]
      first_applicable_tier [of ex_config ex_rels ex_ways 1 "''1''" "''1''"]
    by blast
qed

subsection \<open>Journey assembly\<close>

lemma ranks_before_key:
  "ranks_before j k \<longleftrightarrow>
     (total_duration j, change_count j) \<le> (total_duration k, change_count k)"
  by (auto simp: ranks_before_def less_eq_prod_def)

text \<open>
  Claim C7. The assembled list is sorted ascending by total duration, ties broken by fewer
  changes; no journey of it has a transfer with the verdict INFEASIBLE; and it holds
  exactly the candidates without such a transfer.
\<close>

theorem assemble_ranked_and_feasible:
  "sorted_wrt ranks_before (assemble evaluate candidates) \<and>
   (\<forall>j \<in> set (assemble evaluate candidates). \<forall>t \<in> set (transfers j). evaluate t \<noteq> INFEASIBLE) \<and>
   mset (assemble evaluate candidates) = filter_mset (survives evaluate) (mset candidates)"
proof (intro conjI)
  have "sorted (map (\<lambda>j. (total_duration j, change_count j)) (assemble evaluate candidates))"
    by (simp add: assemble_def)
  then show "sorted_wrt ranks_before (assemble evaluate candidates)"
    by (simp add: sorted_map ranks_before_key [abs_def])
next
  show "\<forall>j \<in> set (assemble evaluate candidates). \<forall>t \<in> set (transfers j). evaluate t \<noteq> INFEASIBLE"
    by (force simp: assemble_def survives_def split: if_splits)
next
  have "[j. j \<leftarrow> candidates, survives evaluate j] = filter (survives evaluate) candidates"
    by (induction candidates) auto
  then show "mset (assemble evaluate candidates) = filter_mset (survives evaluate) (mset candidates)"
    by (simp add: assemble_def)
qed


theorem assemble_ranked_and_feasible_witness:
  "assemble window_verdict ex_candidates =
     [\<lparr>total_duration = 7200, change_count = 1, transfers = [600]\<rparr>,
      \<lparr>total_duration = 7200, change_count = 2, transfers = [300, 130]\<rparr>] \<and>
   sorted_wrt ranks_before (assemble window_verdict ex_candidates) \<and>
   window_verdict 600 \<noteq> INFEASIBLE"
proof -
  have e: "assemble window_verdict ex_candidates =
     [\<lparr>total_duration = 7200, change_count = 1, transfers = [600]\<rparr>,
      \<lparr>total_duration = 7200, change_count = 2, transfers = [300, 130]\<rparr>]"
    by code_simp
  show ?thesis
    using e assemble_ranked_and_feasible [of window_verdict ex_candidates]
    by simp
qed

subsection \<open>Journey results\<close>

text \<open>
  Claim C8. The component takes the no-journeys branch exactly when it is not loading and
  the response carries no error (the field \<^verbatim>\<open>error\<close> is missing or the empty string) and
  an empty journey list (the field \<^verbatim>\<open>journeys\<close> is missing or the empty array); for a
  response that is rendered this is: no error and no journeys. The error branch is taken
  exactly on an error that is a non-empty string, so the two renderings are told apart,
  and the response of a query without itineraries, \<^verbatim>\<open>{ journeys: [] }\<close>, is rendered as
  "No journeys found.".
\<close>

theorem no_journeys_branch:
  fixes p :: "'j props" and d :: "'j response"
  shows
  "(JourneyResults p = ResultsEmpty \<longleftrightarrow>
      \<not> loading p \<and>
      (\<exists>d. data p = Some d \<and> (error d = None \<or> error d = Some []) \<and>
           (journeys d = None \<or> journeys d = Some []))) \<and>
   (JourneyResults \<lparr>data = Some d, loading = False\<rparr> = ResultsEmpty \<longleftrightarrow>
      (error d = None \<or> error d = Some []) \<and> (journeys d = None \<or> journeys d = Some [])) \<and>
   (JourneyResults p = ResultsError msg \<longleftrightarrow>
      \<not> loading p \<and> msg \<noteq> [] \<and> (\<exists>d. data p = Some d \<and> error d = Some msg)) \<and>
   JourneyResults \<lparr>data = Some \<lparr>error = None, journeys = Some []\<rparr>, loading = False\<rparr>
     = ResultsEmpty"
proof (intro conjI)
  have branch: "JourneyResults \<lparr>data = Some d, loading = False\<rparr> = ResultsEmpty \<longleftrightarrow>
      (error d = None \<or> error d = Some []) \<and> (journeys d = None \<or> journeys d = Some [])"
    for d :: "'j response"
    by (cases "error d"; cases "journeys d")
       (simp_all add: JourneyResults_def truthy_def journeys_or_empty_def)
  show "JourneyResults \<lparr>data = Some d, loading = False\<rparr> = ResultsEmpty \<longleftrightarrow>
      (error d = None \<or> error d = Some []) \<and> (journeys d = None \<or> journeys d = Some [])"
    by (rule branch)
  show "JourneyResults p = ResultsEmpty \<longleftrightarrow>
      \<not> loading p \<and>
      (\<exists>d. data p = Some d \<and> (error d = None \<or> error d = Some []) \<and>
           (journeys d = None \<or> journeys d = Some []))"
  proof (cases "loading p")
    case True
    then show ?thesis
      by (simp add: JourneyResults_def)
  next
    case False
    show ?thesis
    proof (cases "data p")
      case None
      with False show ?thesis
        by (simp add: JourneyResults_def)
    next
      case (Some d)
      with False have "p = \<lparr>data = Some d, loading = False\<rparr>"
        by simp
      with branch [of d] Some False show ?thesis
        by auto
    qed
  qed
  show "JourneyResults p = ResultsError msg \<longleftrightarrow>
      \<not> loading p \<and> msg \<noteq> [] \<and> (\<exists>d. data p = Some d \<and> error d = Some msg)"
    by (cases "data p")
       (auto simp: JourneyResults_def truthy_def journeys_or_empty_def split: option.splits)
  show "JourneyResults \<lparr>data = Some \<lparr>error = None, journeys = Some []\<rparr>, loading = False\<rparr>
     = ResultsEmpty"
    by (simp add: JourneyResults_def truthy_def journeys_or_empty_def)
qed

subsection \<open>Autocomplete handler\<close>

text \<open>
  Claim C10, as stated, fails for a longer input: with the dropdown open from an earlier
  response, a rejected request leaves it shown, though the response is not a non-empty
  station list.
\<close>

theorem handleChange_counterexample:
  "length input_Par \<ge> 2 \<and>
   showDropdown (handleChange input_Par FetchRejected open_dropdown) \<and>
   \<not> (\<exists>body. (FetchRejected :: string fetch_outcome) = FetchResponse True (Some (StationList body))
         \<and> body \<noteq> [])"
  by (simp add: handleChange_def open_dropdown_def input_Par_def high_surrogate_def
        low_surrogate_def)

text \<open>
  Claim C10, amended. For an input shorter than two code units the handler issues no
  request, hides the dropdown and calls the completion callback. For a longer input it
  calls the completion callback as well. When such an input can be URI-encoded and the
  response is OK with a station list as its body, the request has been issued, the list
  is stored and the dropdown is shown exactly when the list is not empty. When the input
  cannot be URI-encoded no request is issued; in that case, and when the request is
  rejected, the response is not OK or its body does not parse, the dropdown flag and the
  stored stations stay as they were.
\<close>

theorem handleChange_dropdown:
  "(length val < 2 \<longrightarrow>
      requests (handleChange val outcome st) = requests st \<and>
      \<not> showDropdown (handleChange val outcome st) \<and>
      completions (handleChange val outcome st) = Suc (completions st)) \<and>
   (\<not> length val < 2 \<longrightarrow>
      completions (handleChange val outcome st) = Suc (completions st)) \<and>
   (\<not> length val < 2 \<and> uri_encodable val \<longrightarrow>
      requests (handleChange val (FetchResponse True (Some (StationList body))) st)
        = requests st @ [val] \<and>
      stations (handleChange val (FetchResponse True (Some (StationList body))) st)
        = StationList body \<and>
      (showDropdown (handleChange val (FetchResponse True (Some (StationList body))) st)
        \<longleftrightarrow> body \<noteq> [])) \<and>
   (\<not> length val < 2 \<and> \<not> uri_encodable val \<longrightarrow>
      requests (handleChange val outcome st) = requests st) \<and>
   (\<not> length val < 2 \<and>
    (\<not> uri_encodable val \<or> outcome = FetchRejected \<or> (\<exists>b. outcome = FetchResponse False b)
       \<or> outcome = FetchResponse True None) \<longrightarrow>
      showDropdown (handleChange val outcome st) = showDropdown st \<and>
      stations (handleChange val outcome st) = stations st)"
proof (intro conjI impI)
  assume "length val < 2"
  then show "requests (handleChange val outcome st) = requests st"
    and "\<not> showDropdown (handleChange val outcome st)"
    and "completions (handleChange val outcome st) = Suc (completions st)"
    by (simp_all add: handleChange_def)
next
  assume "\<not> length val < 2"
  then show "completions (handleChange val outcome st) = Suc (completions st)"
    by (simp add: handleChange_def Let_def
          split: fetch_outcome.splits option.splits bool.splits json_body.splits)
next
  assume a: "\<not> length val < 2 \<and> uri_encodable val"
  let ?h = "handleChange val (FetchResponse True (Some (StationList body))) st"
  from a show "requests ?h = requests st @ [val]"
    by (simp add: handleChange_def)
  from a show "stations ?h = StationList body"
    by (simp add: handleChange_def)
  from a show "showDropdown ?h \<longleftrightarrow> body \<noteq> []"
    by (simp add: handleChange_def)
next
  assume "\<not> length val < 2 \<and> \<not> uri_encodable val"
  then show "requests (handleChange val outcome st) = requests st"
    by (simp add: handleChange_def)
next
  assume a: "\<not> length val < 2 \<and>
    (\<not> uri_encodable val \<or> outcome = FetchRejected \<or> (\<exists>b. outcome = FetchResponse False b)
       \<or> outcome = FetchResponse True None)"
  then show "showDropdown (handleChange val outcome st) = showDropdown st"
    by (auto simp: handleChange_def Let_def)
  from a show "stations (handleChange val outcome st) = stations st"
    by (auto simp: handleChange_def Let_def)
qed

theorem handleChange_dropdown_witness:
  "(length input_P < 2
     \<and> \<not> showDropdown (handleChange input_P FetchRejected open_dropdown)
     \<and> requests (handleChange input_P FetchRejected open_dropdown) = [input_Pa]
     \<and> completions (handleChange input_P FetchRejected open_dropdown) = 2) \<and>
   (\<not> length input_Par < 2 \<and> uri_encodable input_Par
     \<and> showDropdown
         (handleChange input_Par (FetchResponse True (Some (StationList [''Paris Est''])))
            open_dropdown)
     \<and> requests
         (handleChange input_Par (FetchResponse True (Some (StationList [''Paris Est''])))
            open_dropdown) = [input_Pa, input_Par]) \<and>
   (\<not> length input_lone_surrogate < 2 \<and> \<not> uri_encodable input_lone_surrogate
     \<and> requests (handleChange input_lone_surrogate FetchRejected open_dropdown) = [input_Pa]
     \<and> showDropdown (handleChange input_lone_surrogate FetchRejected open_dropdown)
     \<and> completions (handleChange input_lone_surrogate FetchRejected open_dropdown) = 2)"
proof -
  have s: "length input_P < 2"
    by (simp add: input_P_def)
  have l: "\<not> length input_Par < 2 \<and> uri_encodable input_Par"
    by (simp add: input_Par_def high_surrogate_def low_surrogate_def)
  have u: "\<not> length input_lone_surrogate < 2 \<and> \<not> uri_encodable input_lone_surrogate"
    by (simp add: input_lone_surrogate_def high_surrogate_def low_surrogate_def)
  show ?thesis
    using s l u
      handleChange_dropdown [of input_P FetchRejected open_dropdown]
      handleChange_dropdown [of input_Par FetchRejected open_dropdown "[''Paris Est'']"]
      handleChange_dropdown [of input_lone_surrogate FetchRejected open_dropdown]
    by (simp add: open_dropdown_def)
qed

end
